theory Spec2Isabelle
  imports Complex_Main "HOL-Library.Signed_Division"
begin

section \<open>JavaScript values\<close>

text \<open>
  The reader works on \<open>words\<close>, an array of strings, and on numbers that are always
  integers (indices, character counts, pixels, words per minute). A word is modelled as
  the list of its code units, so that \<open>length w\<close> is the \<open>w.length\<close> of the source;
  numbers are modelled as \<open>int\<close>. The remainder \<open>a % b\<close> of JavaScript takes the sign
  of \<open>a\<close>; on \<open>int\<close> that is \<open>a smod b\<close>.

  Reading \<open>words[i]\<close> outside the array gives \<open>undefined\<close> in JavaScript, and the
  \<open>.length\<close> the source takes of it then throws a TypeError. \<open>js_index\<close> returns
  \<open>None\<close> for such a read, and every function that performs one returns \<open>None\<close>
  for the thrown TypeError.
\<close>

definition js_index :: "'a list \<Rightarrow> int \<Rightarrow> 'a option" where
  "js_index xs i = (if 0 \<le> i \<and> i < int (length xs) then Some (xs ! nat i) else None)"

text \<open>\<open>buffer.join(" ")\<close>: the elements separated by single spaces.\<close>

fun join_space :: "string list \<Rightarrow> string" where
  "join_space [] = []"
| "join_space [w] = w"
| "join_space (w # v # ws) = w @ '' '' @ join_space (v # ws)"

section \<open>useSpeedReader: the chunk of the linear mode\<close>

text \<open>
  The \<open>while\<close> loop of \<open>getChunkText\<close>, with its loop variables \<open>i\<close>,
  \<open>totalChars\<close> and \<open>buffer\<close>; the result is the state of the variables when the
  loop is left.
\<close>

function chunk_loop ::
  "string list \<Rightarrow> int \<Rightarrow> int \<Rightarrow> int \<Rightarrow> string list \<Rightarrow> (string list \<times> int) option" where
  "chunk_loop words charLimit i totalChars buffer =
     (if i < int (length words) then
        (case js_index words i of
           None \<Rightarrow> None
         | Some w \<Rightarrow>
             (let wLen = int (length w) + 1 in
              if totalChars + wLen > charLimit then
                (if length buffer = 0 then Some (buffer @ [w], i + 1) else Some (buffer, i))
              else chunk_loop words charLimit (i + 1) (totalChars + wLen) (buffer @ [w])))
      else Some (buffer, i))"
  by pat_completeness auto
termination
  by (relation "measure (\<lambda>(words, charLimit, i, totalChars, buffer). nat (int (length words) - i))")
     auto

declare chunk_loop.simps [simp del]

definition getChunkText :: "string list \<Rightarrow> int \<Rightarrow> int \<Rightarrow> string option" where
  "getChunkText words position charLimit =
     (if length words = 0 then Some ''''
      else (case chunk_loop words charLimit position 0 [] of
              None \<Rightarrow> None
            | Some (buffer, i) \<Rightarrow> Some (join_space buffer)))"

section \<open>The chunk boundaries of the keyboard navigation\<close>

text \<open>
  The loop of \<open>getNextChunkStart\<close> (the same loop is written out in the timer
  callback of \<open>useSpeedReader\<close>), with its variables \<open>next\<close> and \<open>total\<close>
  (written \<open>tot\<close>, the name \<open>total\<close> being taken in HOL).
\<close>

function next_loop :: "string list \<Rightarrow> int \<Rightarrow> int \<Rightarrow> int \<Rightarrow> (int \<times> int) option" where
  "next_loop words charLimit next tot =
     (if next < int (length words) then
        (case js_index words next of
           None \<Rightarrow> None
         | Some w \<Rightarrow>
             (let len = int (length w) + 1 in
              if tot + len > charLimit then Some (next, tot)
              else next_loop words charLimit (next + 1) (tot + len)))
      else Some (next, tot))"
  by pat_completeness auto
termination
  by (relation "measure (\<lambda>(words, charLimit, next, tot). nat (int (length words) - next))")
     auto

declare next_loop.simps [simp del]

definition getNextChunkStart :: "string list \<Rightarrow> int \<Rightarrow> int \<Rightarrow> int option" where
  "getNextChunkStart words charLimit pos =
     (case next_loop words charLimit pos 0 of
        None \<Rightarrow> None
      | Some (next, tot) \<Rightarrow>
          Some (if next = pos then min (int (length words)) (pos + 1) else next))"

text \<open>The loop of \<open>getPrevChunkStart\<close>, with its variables \<open>prev\<close> and \<open>total\<close>.\<close>

function prev_loop :: "string list \<Rightarrow> int \<Rightarrow> int \<Rightarrow> int \<Rightarrow> (int \<times> int) option" where
  "prev_loop words charLimit prev tot =
     (if prev > 0 then
        (case js_index words (prev - 1) of
           None \<Rightarrow> None
         | Some w \<Rightarrow>
             (let len = int (length w) + 1 in
              if tot + len > charLimit then Some (prev, tot)
              else prev_loop words charLimit (prev - 1) (tot + len)))
      else Some (prev, tot))"
  by pat_completeness auto
termination
  by (relation "measure (\<lambda>(words, charLimit, prev, tot). nat prev)") auto

declare prev_loop.simps [simp del]

definition getPrevChunkStart :: "string list \<Rightarrow> int \<Rightarrow> int \<Rightarrow> int option" where
  "getPrevChunkStart words charLimit pos =
     (case prev_loop words charLimit pos 0 of
        None \<Rightarrow> None
      | Some (prev, tot) \<Rightarrow> Some (if prev = pos then max 0 (pos - 1) else prev))"

section \<open>useSpeedReader: position, playback and the timer\<close>

text \<open>
  The state of the hook: \<open>position\<close> and \<open>isPlaying\<close> are React state,
  \<open>intervalRef\<close> holds the handle of the running interval or \<open>null\<close>. The handle is
  modelled by the period the interval was started with, \<open>None\<close> being \<open>null\<close>.
\<close>

record reader =
  position :: int
  isPlaying :: bool
  intervalRef :: "int option"

definition stopInterval :: "'a reader_scheme \<Rightarrow> 'a reader_scheme" where
  "stopInterval r = r\<lparr>intervalRef := None\<rparr>"

text \<open>
  \<open>Math.round\<close> rounds to the nearest integer, a tie towards \<open>+\<infinity>\<close>. The quotient
  \<open>60000 / Math.max(1, wpm)\<close> is taken exactly, as a rational: the words per minute
  are integers (300 at the start, changed in steps of 10 and clamped), and for the rates
  the controls allow the quotient of the two doubles is never within rounding error of
  a tie.
\<close>

definition Math_round :: "rat \<Rightarrow> int" where
  "Math_round x = \<lfloor>x + 1 / 2\<rfloor>"

definition msPerChunk :: "int \<Rightarrow> int" where
  "msPerChunk wpm = max 1 (Math_round (60000 / of_int (max 1 wpm)))"

text \<open>
  The effect that starts and stops the interval (``Autoplay''): it runs after a render in
  which \<open>isPlaying\<close>, \<open>wpm\<close>, \<open>charLimit\<close>, \<open>words\<close> or \<open>stepSize\<close> changed.
\<close>

definition autoplay_effect :: "string list \<Rightarrow> int \<Rightarrow> 'a reader_scheme \<Rightarrow> 'a reader_scheme" where
  "autoplay_effect words wpm r =
     (if \<not> isPlaying r \<or> length words = 0 then stopInterval r
      else (stopInterval r)\<lparr>intervalRef := Some (msPerChunk wpm)\<rparr>)"

text \<open>
  The callback of the interval. \<open>tick_next\<close> is the index \<open>next\<close> it computes from
  the position \<open>p\<close>: by the loop of the chunk when \<open>stepSize\<close> is 1, by
  \<open>stepSize\<close> words otherwise. \<open>tick\<close> is the whole callback: at the end of the
  words it stops the interval, pauses and returns \<open>p\<close>.
\<close>

definition tick_next :: "string list \<Rightarrow> int \<Rightarrow> int \<Rightarrow> int \<Rightarrow> int option" where
  "tick_next words charLimit stepSize p =
     (if stepSize = 1 then
        (case next_loop words charLimit p 0 of
           None \<Rightarrow> None
         | Some (next, tot) \<Rightarrow>
             Some (if next = p then min (int (length words)) (p + 1) else next))
      else Some (min (int (length words)) (p + stepSize)))"

definition tick ::
  "string list \<Rightarrow> int \<Rightarrow> int \<Rightarrow> 'a reader_scheme \<Rightarrow> 'a reader_scheme option" where
  "tick words charLimit stepSize r =
     (case tick_next words charLimit stepSize (position r) of
        None \<Rightarrow> None
      | Some next \<Rightarrow>
          (if next \<ge> int (length words)
           then Some ((stopInterval r)\<lparr>isPlaying := False\<rparr>)
           else Some (r\<lparr>position := next\<rparr>)))"

definition togglePlay :: "string list \<Rightarrow> 'a reader_scheme \<Rightarrow> 'a reader_scheme" where
  "togglePlay words r = (if length words > 0 then r\<lparr>isPlaying := \<not> isPlaying r\<rparr> else r)"

definition resetPosition :: "'a reader_scheme \<Rightarrow> 'a reader_scheme" where
  "resetPosition r = r\<lparr>position := 0, isPlaying := False\<rparr>"

definition jumpToPosition :: "string list \<Rightarrow> int \<Rightarrow> 'a reader_scheme \<Rightarrow> 'a reader_scheme" where
  "jumpToPosition words newPos r =
     r\<lparr>position := max 0 (min newPos (max 0 (int (length words) - 1)))\<rparr>"

definition setIsPlaying :: "bool \<Rightarrow> 'a reader_scheme \<Rightarrow> 'a reader_scheme" where
  "setIsPlaying b r = r\<lparr>isPlaying := b\<rparr>"

text \<open>
  \<open>handleSeek\<close> of the application (the progress slider and its two buttons);
  \<open>isPeripheral\<close> is a state of the application that nothing ever sets.
\<close>

definition handleSeek ::
  "string list \<Rightarrow> bool \<Rightarrow> int \<Rightarrow> 'a reader_scheme \<Rightarrow> 'a reader_scheme" where
  "handleSeek words isPeripheral newPos r =
     (if isPeripheral then jumpToPosition words (newPos - (newPos smod 2)) (setIsPlaying False r)
      else jumpToPosition words newPos (setIsPlaying False r))"

section \<open>ReadingView: the pair mode and the training\<close>

definition TRAIN_MIN :: int where "TRAIN_MIN = 10"
definition TRAIN_MAX :: int where "TRAIN_MAX = 550"
definition TRAIN_STEP :: int where "TRAIN_STEP = 10"
definition TRAIN_EVERY_PAIRS :: int where "TRAIN_EVERY_PAIRS = 3"

text \<open>
  The state the view works on: the state of the hook it receives (\<open>position\<close>,
  \<open>isPlaying\<close>), the settings \<open>wpm\<close> and \<open>charLimit\<close> of the application, its own
  React state (\<open>isAngleMode\<close>, \<open>pairGap\<close>, \<open>pairPos\<close>, \<open>isPairPlaying\<close>,
  \<open>isTraining\<close>, \<open>trainingDir\<close>, \<open>showGuide\<close>) and its refs (\<open>pairTimerRef\<close>,
  \<open>pairsSinceStepRef\<close>, \<open>positionRef\<close>, \<open>lastSyncedPosRef\<close>, \<open>prevPairPosRef\<close>).
  The state that only styles the text (font size, bold, upside down, half visible, hidden
  vowels, compact menu, full screen) is left out.
\<close>

record view = reader +
  wpm :: int
  charLimit :: int
  isAngleMode :: bool
  pairGap :: int
  pairPos :: int
  isPairPlaying :: bool
  pairTimerRef :: "int option"
  isTraining :: bool
  trainingDir :: int
  pairsSinceStepRef :: int
  showGuide :: bool
  positionRef :: int
  lastSyncedPosRef :: int
  prevPairPosRef :: int

text \<open>The state a freshly opened reading view starts from (the \<open>useState\<close> and \<open>useRef\<close> defaults).\<close>

definition initial_view :: view where
  "initial_view =
     \<lparr>position = 0, isPlaying = False, intervalRef = None,
      wpm = 300, charLimit = 25, isAngleMode = False, pairGap = 500, pairPos = 0,
      isPairPlaying = False, pairTimerRef = None, isTraining = False, trainingDir = 1,
      pairsSinceStepRef = 0, showGuide = False, positionRef = 0, lastSyncedPosRef = - 1,
      prevPairPosRef = 0\<rparr>"

text \<open>\<open>leftIndex\<close>: the index of the left word of the pair on display.\<close>

definition leftIndex :: "int \<Rightarrow> int" where
  "leftIndex p = max 0 (p - (p smod 2))"

definition stopPairTimer :: "view \<Rightarrow> view" where
  "stopPairTimer s = s\<lparr>pairTimerRef := None\<rparr>"

definition msPerPair :: "int \<Rightarrow> int" where
  "msPerPair w = max 1 (Math_round (60000 / of_int (max 1 w)))"

definition startPairTimer :: "view \<Rightarrow> view" where
  "startPairTimer s = (stopPairTimer s)\<lparr>pairTimerRef := Some (msPerPair (wpm s))\<rparr>"

text \<open>The callback of the pair interval: two words on, or stop and pause at the end.\<close>

definition pair_tick :: "string list \<Rightarrow> view \<Rightarrow> view" where
  "pair_tick words s =
     (let p = pairPos s; next = p + 2 in
      if next \<ge> int (length words) then (stopPairTimer s)\<lparr>isPairPlaying := False\<rparr>
      else s\<lparr>pairPos := next\<rparr>)"

text \<open>The effect on \<open>position\<close>, which keeps \<open>positionRef\<close> current.\<close>

definition position_ref_effect :: "view \<Rightarrow> view" where
  "position_ref_effect s = s\<lparr>positionRef := position s\<rparr>"

text \<open>
  The effect on \<open>isAngleMode\<close> (entering and leaving the pair mode); it runs after a
  render in which \<open>isAngleMode\<close> changed.
\<close>

definition angle_mode_effect :: "view \<Rightarrow> view" where
  "angle_mode_effect s =
     (if isAngleMode s then
        (let pos = positionRef s;
             evenFromPosition = max 0 (pos - (pos smod 2))
         in (stopPairTimer
               (s\<lparr>isPlaying := False, pairPos := evenFromPosition, isPairPlaying := False\<rparr>))
              \<lparr>lastSyncedPosRef := - 1, prevPairPosRef := evenFromPosition\<rparr>)
      else (stopPairTimer (s\<lparr>isTraining := False, isPairPlaying := False\<rparr>))
             \<lparr>lastSyncedPosRef := - 1\<rparr>)"

text \<open>The button of the pair mode (\<open>setIsAngleMode(m => !m)\<close>) and the button of the training.\<close>

definition toggleAngleMode :: "view \<Rightarrow> view" where
  "toggleAngleMode s = s\<lparr>isAngleMode := \<not> isAngleMode s\<rparr>"

definition toggleTraining :: "view \<Rightarrow> view" where
  "toggleTraining s =
     (if \<not> isTraining s then
        (if \<not> isAngleMode s then s\<lparr>isAngleMode := True\<rparr> else s)
          \<lparr>isPlaying := False, pairsSinceStepRef := 0, trainingDir := 1, pairGap := TRAIN_MIN,
           isTraining := True, isPairPlaying := True, prevPairPosRef := leftIndex (pairPos s),
           showGuide := True\<rparr>
      else s\<lparr>isTraining := False, isPairPlaying := False, isAngleMode := False\<rparr>)"

text \<open>The effect that starts and stops the pair interval; its cleanup is \<open>stopPairTimer\<close>.\<close>

definition pair_timer_effect :: "view \<Rightarrow> view" where
  "pair_timer_effect s =
     (if \<not> isAngleMode s then s
      else if isPairPlaying s then startPairTimer s else stopPairTimer s)"

text \<open>The effect that carries the pair over to the position of the hook.\<close>

definition sync_effect :: "string list \<Rightarrow> view \<Rightarrow> view" where
  "sync_effect words s =
     (if \<not> isAngleMode s then s
      else if lastSyncedPosRef s \<noteq> leftIndex (pairPos s)
        then jumpToPosition words (leftIndex (pairPos s))
               (s\<lparr>lastSyncedPosRef := leftIndex (pairPos s)\<rparr>)
        else s)"

text \<open>
  The effect of the training. \<open>train_gap\<close> is the function it hands to \<open>setPairGap\<close>,
  which also sets the direction at the two bounds.
\<close>

definition train_gap :: "view \<Rightarrow> view" where
  "train_gap s =
     (let next = pairGap s + trainingDir s * TRAIN_STEP in
      if next \<ge> TRAIN_MAX then s\<lparr>pairGap := TRAIN_MAX, trainingDir := - 1\<rparr>
      else if next \<le> TRAIN_MIN then s\<lparr>pairGap := TRAIN_MIN, trainingDir := 1\<rparr>
      else s\<lparr>pairGap := next\<rparr>)"

definition training_effect :: "view \<Rightarrow> view" where
  "training_effect s =
     (if \<not> (isAngleMode s \<and> isTraining s) then s\<lparr>prevPairPosRef := pairPos s\<rparr>
      else if pairPos s > prevPairPosRef s then
        (let s1 = s\<lparr>pairsSinceStepRef := pairsSinceStepRef s + 1\<rparr>;
             s2 = (if pairsSinceStepRef s1 \<ge> TRAIN_EVERY_PAIRS
                   then train_gap (s1\<lparr>pairsSinceStepRef := 0\<rparr>) else s1)
         in s2\<lparr>prevPairPosRef := pairPos s\<rparr>)
      else s)"

text \<open>The two buttons of the gap, shown in the pair mode.\<close>

definition gap_minus :: "view \<Rightarrow> view" where
  "gap_minus s = s\<lparr>pairGap := max 0 (pairGap s - 10)\<rparr>"

definition gap_plus :: "view \<Rightarrow> view" where
  "gap_plus s = s\<lparr>pairGap := min 1200 (pairGap s + 10)\<rparr>"

section \<open>ReadingView: start, pause and the keyboard\<close>

definition handleStartPause :: "string list \<Rightarrow> view \<Rightarrow> view" where
  "handleStartPause words s =
     (if isAngleMode s then s\<lparr>isPairPlaying := \<not> isPairPlaying s\<rparr> else togglePlay words s)"

datatype key_code = ArrowUp | ArrowDown | Space | ArrowRight | ArrowLeft | OtherKey

definition clampLocal :: "int \<Rightarrow> int \<Rightarrow> int \<Rightarrow> int" where
  "clampLocal v mn mx = max mn (min mx v)"

text \<open>
  \<open>onKey\<close>, the handler of \<open>keydown\<close>. In the linear mode the arrows call
  \<open>getNextChunkStart\<close> and \<open>getPrevChunkStart\<close>, whose TypeError is the \<open>None\<close>
  of the result. The handler is installed only when there are words: \<open>keydown\<close>.
\<close>

definition onKey :: "string list \<Rightarrow> key_code \<Rightarrow> view \<Rightarrow> view option" where
  "onKey words k s =
     (case k of
        ArrowUp \<Rightarrow> Some (s\<lparr>wpm := clampLocal (wpm s + 10) 20 1000\<rparr>)
      | ArrowDown \<Rightarrow> Some (s\<lparr>wpm := clampLocal (wpm s - 10) 20 1000\<rparr>)
      | Space \<Rightarrow> Some (handleStartPause words s)
      | ArrowRight \<Rightarrow>
          (if isAngleMode s then
             Some (s\<lparr>isPairPlaying := False,
                     pairPos := min (pairPos s + 2) (max 0 (int (length words) - 2))\<rparr>)
           else
             (case getNextChunkStart words (charLimit s) (position s) of
                None \<Rightarrow> None
              | Some n \<Rightarrow> Some (jumpToPosition words n (setIsPlaying False s))))
      | ArrowLeft \<Rightarrow>
          (if isAngleMode s then
             Some (s\<lparr>isPairPlaying := False, pairPos := max 0 (pairPos s - 2)\<rparr>)
           else
             (case getPrevChunkStart words (charLimit s) (position s) of
                None \<Rightarrow> None
              | Some n \<Rightarrow> Some (jumpToPosition words n (setIsPlaying False s))))
      | OtherKey \<Rightarrow> Some s)"

definition keydown :: "string list \<Rightarrow> key_code \<Rightarrow> view \<Rightarrow> view option" where
  "keydown words k s = (if length words = 0 then Some s else onKey words k s)"

section \<open>Scenarios and notions the properties are stated with\<close>

text \<open>The five words of the scenario of the chunk formatter.\<close>

definition five_words :: "string list" where
  "five_words = [''The'', ''quick'', ''brown'', ''fox'', ''jumps'']"

text \<open>
  The running total of a run of words, in the words of the specification: every word
  counts its length plus one for the separator.
\<close>

definition chars_of :: "string list \<Rightarrow> int" where
  "chars_of ws = (\<Sum>w\<leftarrow>ws. int (length w) + 1)"

text \<open>
  The pair mode entered from the fresh view over \<open>five_words\<close> (button, effect of the
  mode, first synchronisation), and the training started in it.
\<close>

definition pair_view :: view where
  "pair_view = sync_effect five_words (angle_mode_effect (toggleAngleMode initial_view))"

definition training_view :: view where
  "training_view = toggleTraining (angle_mode_effect (toggleAngleMode initial_view))"

text \<open>
  The pair mode with the position of the linear cursor in step: the index carried over
  last is the index of the left word of the pair, and the position is that index,
  clamped as \<open>jumpToPosition\<close> clamps it.
\<close>

definition pair_synced :: "string list \<Rightarrow> view \<Rightarrow> bool" where
  "pair_synced words s \<longleftrightarrow>
     isAngleMode s \<and> lastSyncedPosRef s = leftIndex (pairPos s)
     \<and> position s = max 0 (min (leftIndex (pairPos s)) (max 0 (int (length words) - 1)))"

text \<open>
  A run of the training: \<open>pairPos\<close> takes the values of the list one after the other,
  and the effect of the training runs after each change.
\<close>

fun training_run :: "int list \<Rightarrow> view \<Rightarrow> view" where
  "training_run [] s = s"
| "training_run (p # ps) s = training_run ps (training_effect (s\<lparr>pairPos := p\<rparr>))"

section \<open>The loops of the chunk\<close>

lemma js_index_Some: "0 \<le> i \<Longrightarrow> i < int (length xs) \<Longrightarrow> js_index xs i = Some (xs ! nat i)"
  by (simp add: js_index_def)

lemma chars_of_simps [simp]:
  "chars_of [] = 0"
  "chars_of (w # ws) = int (length w) + 1 + chars_of ws"
  "chars_of (us @ vs) = chars_of us + chars_of vs"
  by (simp_all add: chars_of_def)

lemma next_loop_exit: "\<not> n < int (length words) \<Longrightarrow> next_loop words c n t = Some (n, t)"
  by (subst next_loop.simps) simp

lemma next_loop_stop:
  "0 \<le> n \<Longrightarrow> n < int (length words) \<Longrightarrow> c < t + (int (length (words ! nat n)) + 1) \<Longrightarrow>
   next_loop words c n t = Some (n, t)"
  by (subst next_loop.simps) (simp add: js_index_Some)

lemma next_loop_step:
  "0 \<le> n \<Longrightarrow> n < int (length words) \<Longrightarrow> \<not> c < t + (int (length (words ! nat n)) + 1) \<Longrightarrow>
   next_loop words c n t = next_loop words c (n + 1) (t + (int (length (words ! nat n)) + 1))"
  by (subst next_loop.simps) (simp add: js_index_Some)

text \<open>A negative index makes the loop read \<open>words[next]\<close> outside the array.\<close>

lemma next_loop_negative: "n < 0 \<Longrightarrow> next_loop words c n t = None"
  by (subst next_loop.simps) (simp add: js_index_def)

text \<open>
  From an index that is not negative the loop returns; it never moves back, stays within
  the words, leaves the total alone when it does not move, keeps it within the budget
  when it does, and stops only in front of a word that does not fit any more.
\<close>

lemma next_loop_props:
  "0 \<le> n \<Longrightarrow> \<exists>n' t'. next_loop words c n t = Some (n', t') \<and> n \<le> n'
      \<and> n' \<le> max n (int (length words)) \<and> (n' = n \<longrightarrow> t' = t) \<and> (n < n' \<longrightarrow> t' \<le> c)
      \<and> (n' < int (length words) \<longrightarrow> c < t' + (int (length (words ! nat n')) + 1))"
proof (induction words c n t rule: next_loop.induct)
  case (1 words c n t)
  show ?case
  proof (cases "n < int (length words)")
    case False
    then show ?thesis by (simp add: next_loop_exit)
  next
    case inside: True
    show ?thesis
    proof (cases "c < t + (int (length (words ! nat n)) + 1)")
      case True
      with inside "1.prems" show ?thesis by (simp add: next_loop_stop)
    next
      case False
      with inside "1.prems" have idx: "js_index words n = Some (words ! nat n)"
        by (simp add: js_index_Some)
      from "1.IH"[OF inside idx refl] False "1.prems"
      obtain n' t' where
        r: "next_loop words c (n + 1) (t + (int (length (words ! nat n)) + 1)) = Some (n', t')"
        and b: "n + 1 \<le> n'" "n' \<le> max (n + 1) (int (length words))"
          "n' = n + 1 \<longrightarrow> t' = t + (int (length (words ! nat n)) + 1)" "n + 1 < n' \<longrightarrow> t' \<le> c"
          "n' < int (length words) \<longrightarrow> c < t' + (int (length (words ! nat n')) + 1)"
        by auto
      have "next_loop words c n t = Some (n', t')"
        using next_loop_step[OF "1.prems" inside False] r by simp
      moreover have "t' \<le> c" using b False by (cases "n' = n + 1") auto
      ultimately show ?thesis using b inside by auto
    qed
  qed
qed

lemma drop_nat_step:
  assumes "0 \<le> i" "i < int (length xs)" "i < n"
  shows "take (nat (n - i)) (drop (nat i) xs)
           = xs ! nat i # take (nat (n - (i + 1))) (drop (nat (i + 1)) xs)"
proof -
  from assms have "nat (n - i) = Suc (nat (n - (i + 1)))" "nat (i + 1) = Suc (nat i)"
    "nat i < length xs"
    by auto
  then show ?thesis by (simp add: Cons_nth_drop_Suc[symmetric])
qed

text \<open>The total the loop ends with is the total it starts with plus the words it passed.\<close>

lemma next_loop_total:
  "0 \<le> n \<Longrightarrow> next_loop words c n t = Some (n', t') \<Longrightarrow>
   t' = t + chars_of (take (nat (n' - n)) (drop (nat n) words))"
proof (induction words c n t rule: next_loop.induct)
  case (1 words c n t)
  show ?case
  proof (cases "n < int (length words)")
    case False
    with "1.prems" show ?thesis by (simp add: next_loop_exit)
  next
    case inside: True
    let ?l = "int (length (words ! nat n)) + 1"
    show ?thesis
    proof (cases "c < t + ?l")
      case True
      with inside "1.prems" show ?thesis by (simp add: next_loop_stop)
    next
      case False
      from inside "1.prems" have idx: "js_index words n = Some (words ! nat n)"
        by (simp add: js_index_Some)
      have r: "next_loop words c (n + 1) (t + ?l) = Some (n', t')"
        using next_loop_step[OF "1.prems"(1) inside False] "1.prems"(2) by simp
      from next_loop_props[of "n + 1" words c "t + ?l"] r "1.prems"(1) have "n < n'" by auto
      have "t' = t + ?l + chars_of (take (nat (n' - (n + 1))) (drop (nat (n + 1)) words))"
        using "1.IH"[OF inside idx refl False _ r] "1.prems"(1) by simp
      then show ?thesis
        using drop_nat_step[OF "1.prems"(1) inside \<open>n < n'\<close>] by simp
    qed
  qed
qed

lemma chunk_loop_exit: "\<not> i < int (length words) \<Longrightarrow> chunk_loop words c i t b = Some (b, i)"
  by (subst chunk_loop.simps) simp

text \<open>
  Once the buffer holds a word, the loop of \<open>getChunkText\<close> collects exactly the words
  the loop of \<open>getNextChunkStart\<close> passes.
\<close>

lemma chunk_loop_follows_next_loop:
  "0 \<le> i \<Longrightarrow> b \<noteq> [] \<Longrightarrow> next_loop words c i t = Some (n', t') \<Longrightarrow>
   chunk_loop words c i t b = Some (b @ take (nat (n' - i)) (drop (nat i) words), n')"
proof (induction words c i t arbitrary: b rule: next_loop.induct)
  case (1 words c i t)
  show ?case
  proof (cases "i < int (length words)")
    case False
    with "1.prems" show ?thesis by (simp add: next_loop_exit chunk_loop_exit)
  next
    case inside: True
    let ?l = "int (length (words ! nat i)) + 1"
    from inside "1.prems" have idx: "js_index words i = Some (words ! nat i)"
      by (simp add: js_index_Some)
    show ?thesis
    proof (cases "c < t + ?l")
      case True
      with inside "1.prems" have "n' = i" by (simp add: next_loop_stop)
      moreover have "chunk_loop words c i t b = Some (b, i)"
        using inside idx True "1.prems"(2) by (subst chunk_loop.simps) simp
      ultimately show ?thesis by simp
    next
      case False
      have r: "next_loop words c (i + 1) (t + ?l) = Some (n', t')"
        using next_loop_step[OF "1.prems"(1) inside False] "1.prems"(3) by simp
      from next_loop_props[of "i + 1" words c "t + ?l"] r "1.prems"(1) have "i < n'" by auto
      have "chunk_loop words c i t b = chunk_loop words c (i + 1) (t + ?l) (b @ [words ! nat i])"
        using inside idx False by (subst chunk_loop.simps) simp
      also have "\<dots> = Some ((b @ [words ! nat i])
                    @ take (nat (n' - (i + 1))) (drop (nat (i + 1)) words), n')"
        using "1.IH"[OF inside idx refl False _ _ r, of "b @ [words ! nat i]"] "1.prems"(1)
        by simp
      finally show ?thesis
        using drop_nat_step[OF "1.prems"(1) inside \<open>i < n'\<close>] by simp
    qed
  qed
qed

lemma prev_loop_exit: "\<not> 0 < p \<Longrightarrow> prev_loop words c p t = Some (p, t)"
  by (subst prev_loop.simps) simp

lemma prev_loop_stop:
  "0 < p \<Longrightarrow> p \<le> int (length words) \<Longrightarrow> c < t + (int (length (words ! nat (p - 1))) + 1) \<Longrightarrow>
   prev_loop words c p t = Some (p, t)"
  by (subst prev_loop.simps) (simp add: js_index_Some)

lemma prev_loop_step:
  "0 < p \<Longrightarrow> p \<le> int (length words) \<Longrightarrow> \<not> c < t + (int (length (words ! nat (p - 1))) + 1) \<Longrightarrow>
   prev_loop words c p t
     = prev_loop words c (p - 1) (t + (int (length (words ! nat (p - 1))) + 1))"
  by (subst prev_loop.simps) (simp add: js_index_Some)

text \<open>From an index within the words the backward loop returns, and never moves forward.\<close>

lemma prev_loop_props:
  "p \<le> int (length words) \<Longrightarrow>
   \<exists>p' t'. prev_loop words c p t = Some (p', t') \<and> p' \<le> p \<and> min 0 p \<le> p'"
proof (induction words c p t rule: prev_loop.induct)
  case (1 words c p t)
  show ?case
  proof (cases "0 < p")
    case False
    then show ?thesis by (simp add: prev_loop_exit)
  next
    case pos: True
    show ?thesis
    proof (cases "c < t + (int (length (words ! nat (p - 1))) + 1)")
      case True
      with pos "1.prems" show ?thesis by (simp add: prev_loop_stop)
    next
      case False
      from pos "1.prems" have idx: "js_index words (p - 1) = Some (words ! nat (p - 1))"
        by (simp add: js_index_Some)
      from "1.IH"[OF pos idx refl] False "1.prems"
      obtain p' t' where
        "prev_loop words c (p - 1) (t + (int (length (words ! nat (p - 1))) + 1)) = Some (p', t')"
        "p' \<le> p - 1" "min 0 (p - 1) \<le> p'"
        by auto
      then show ?thesis
        using prev_loop_step[OF pos "1.prems" False] pos by auto
    qed
  qed
qed

text \<open>
  The backward loop takes back what the forward loop passed: when the words between
  \<open>s\<close> and \<open>n\<close> still fit on top of the total \<open>u\<close>, walking back from \<open>n\<close>
  reaches \<open>s\<close> with these words added to the total, and goes on from there.
\<close>

lemma prev_loop_undoes_next_loop:
  "0 \<le> s \<Longrightarrow> next_loop words c s t = Some (n, T) \<Longrightarrow> u + (T - t) \<le> c \<Longrightarrow>
   prev_loop words c n u = prev_loop words c s (u + (T - t))"
proof (induction words c s t arbitrary: u rule: next_loop.induct)
  case (1 words c s t)
  show ?case
  proof (cases "s < int (length words)")
    case False
    with "1.prems" show ?thesis by (simp add: next_loop_exit)
  next
    case inside: True
    let ?l = "int (length (words ! nat s)) + 1"
    show ?thesis
    proof (cases "c < t + ?l")
      case True
      with inside "1.prems" show ?thesis by (simp add: next_loop_stop)
    next
      case False
      from inside "1.prems" have idx: "js_index words s = Some (words ! nat s)"
        by (simp add: js_index_Some)
      have r: "next_loop words c (s + 1) (t + ?l) = Some (n, T)"
        using next_loop_step[OF "1.prems"(1) inside False] "1.prems"(2) by simp
      have small: "u + (T - (t + ?l)) \<le> c" using "1.prems"(3) by simp
      have "prev_loop words c n u = prev_loop words c (s + 1) (u + (T - (t + ?l)))"
        using "1.IH"[OF inside idx refl False _ r small] "1.prems"(1) by simp
      also have "\<dots> = prev_loop words c s (u + (T - (t + ?l)) + ?l)"
        using prev_loop_step[of "s + 1" words c "u + (T - (t + ?l))"] "1.prems"(1,3) inside
        by simp
      finally show ?thesis by (simp add: algebra_simps)
    qed
  qed
qed

lemma getNextChunkStart_inside:
  assumes "0 \<le> pos" "pos < int (length words)"
  shows "\<exists>n. getNextChunkStart words c pos = Some n \<and> pos < n \<and> n \<le> int (length words)"
proof -
  from next_loop_props[OF assms(1), of words c 0] obtain n' t' where
    "next_loop words c pos 0 = Some (n', t')" "pos \<le> n'" "n' \<le> max pos (int (length words))"
    by blast
  with assms show ?thesis by (auto simp: getNextChunkStart_def)
qed

lemma getNextChunkStart_beyond:
  assumes "int (length words) \<le> pos"
  shows "getNextChunkStart words c pos = Some (int (length words))"
  using assms by (simp add: getNextChunkStart_def next_loop_exit)

lemma getNextChunkStart_negative: "pos < 0 \<Longrightarrow> getNextChunkStart words c pos = None"
  by (simp add: getNextChunkStart_def next_loop_negative)

lemma getChunkText_beyond:
  assumes "int (length words) \<le> pos"
  shows "getChunkText words pos c = Some ''''"
  using assms by (simp add: getChunkText_def chunk_loop_exit)

section \<open>The chunk formatter\<close>

text \<open>
  Claim C1 states that, for every budget of at least 1, the next-chunk computation
  returns an index strictly greater than \<open>startIndex\<close> when \<open>startIndex < length\<close>,
  and an empty chunk with the index \<open>startIndex\<close> itself when
  \<open>startIndex \<ge> length\<close>. The second half fails beyond the end: for the single word
  \<open>a\<close> and the start index 2 the chunk is empty, but \<open>getNextChunkStart\<close> returns 1,
  the length, and not 2.
\<close>

theorem getNextChunkStart_beyond_end_counterexample:
  "(1::int) \<le> 10 \<and> int (length [''a'']) \<le> 2
   \<and> getChunkText [''a''] 2 10 = Some ''''
   \<and> getNextChunkStart [''a''] 10 2 = Some 1
   \<and> getNextChunkStart [''a''] 10 2 \<noteq> Some 2"
  by (simp add: getChunkText_def getNextChunkStart_def chunk_loop.simps next_loop.simps)

text \<open>
  Claim C1, as the code has it: for every sequence of words, every budget of at least 1
  and every start index (an index is not negative), \<open>getNextChunkStart\<close> returns an
  index strictly greater than \<open>startIndex\<close> when \<open>startIndex < length\<close>; when
  \<open>startIndex \<ge> length\<close> the chunk text is empty and \<open>getNextChunkStart\<close> returns
  \<open>length\<close>, which is \<open>startIndex\<close> exactly when \<open>startIndex = length\<close>.
\<close>

theorem getNextChunkStart_progress:
  assumes "1 \<le> budget" and "0 \<le> startIndex"
  shows "(startIndex < int (length words) \<longrightarrow>
            (\<exists>n. getNextChunkStart words budget startIndex = Some n \<and> startIndex < n))
       \<and> (int (length words) \<le> startIndex \<longrightarrow>
            getChunkText words startIndex budget = Some ''''
            \<and> getNextChunkStart words budget startIndex = Some (int (length words)))"
  using getNextChunkStart_inside[OF assms(2), of words budget]
    getNextChunkStart_beyond[of words startIndex budget]
    getChunkText_beyond[of words startIndex budget]
  by blast

theorem getNextChunkStart_progress_witness:
  "(1::int) \<le> 10 \<and> (0::int) \<le> 0 \<and> 0 < int (length five_words)
   \<and> getNextChunkStart five_words 10 0 = Some 2 \<and> (0::int) < 2
   \<and> (0::int) \<le> 7 \<and> int (length five_words) \<le> 7
   \<and> getChunkText five_words 7 10 = Some ''''
   \<and> getNextChunkStart five_words 10 7 = Some 5"
  using getNextChunkStart_progress[of 10 0 five_words]
    getNextChunkStart_progress[of 10 7 five_words]
  by (simp add: five_words_def getNextChunkStart_def next_loop.simps js_index_def)

text \<open>
  Claim C3: the chunk computation accumulates words from \<open>startIndex\<close>, each counting
  its length plus one towards a running total, and stops in front of the first word that
  would take the total over the budget, except that a first word that alone exceeds the
  budget is taken by itself. For a start index within the words, the chunk is the
  \<open>k\<close> words from \<open>startIndex\<close> on, \<open>getNextChunkStart\<close> is \<open>startIndex + k\<close>
  with \<open>k \<ge> 1\<close>; when the first word exceeds the budget, \<open>k = 1\<close>; otherwise
  the \<open>k\<close> words are within the budget and, unless they reach the end, one word more
  is not. For the five words of the scenario, budget 10 and start 0, the chunk is
  \<open>The quick\<close> and the next index is 2.
\<close>

theorem chunk_accumulates_within_budget:
  assumes "0 \<le> startIndex" "startIndex < int (length words)"
  shows "(\<exists>k. 1 \<le> k \<and> startIndex + int k \<le> int (length words)
      \<and> getChunkText words startIndex budget
            = Some (join_space (take k (drop (nat startIndex) words)))
      \<and> getNextChunkStart words budget startIndex = Some (startIndex + int k)
      \<and> (if budget < chars_of [words ! nat startIndex] then k = 1
         else chars_of (take k (drop (nat startIndex) words)) \<le> budget
            \<and> (startIndex + int k < int (length words) \<longrightarrow>
                 budget < chars_of (take (Suc k) (drop (nat startIndex) words)))))
    \<and> getChunkText five_words 0 10 = Some ''The quick''
    \<and> getNextChunkStart five_words 10 0 = Some 2"
proof -
  let ?w = "words ! nat startIndex"
  let ?rest = "drop (nat startIndex) words"
  from assms have idx: "js_index words startIndex = Some ?w" by (simp add: js_index_Some)
  from assms have ne: "length words \<noteq> 0" by auto
  from assms have first: "take 1 ?rest = [?w]"
    using drop_nat_step[of startIndex words "startIndex + 1"] by simp
  have general: "\<exists>k. 1 \<le> k \<and> startIndex + int k \<le> int (length words)
      \<and> getChunkText words startIndex budget = Some (join_space (take k ?rest))
      \<and> getNextChunkStart words budget startIndex = Some (startIndex + int k)
      \<and> (if budget < chars_of [?w] then k = 1
         else chars_of (take k ?rest) \<le> budget
            \<and> (startIndex + int k < int (length words) \<longrightarrow>
                 budget < chars_of (take (Suc k) ?rest)))"
  proof (cases "budget < chars_of [?w]")
    case True
    then have big: "budget < 0 + (int (length ?w) + 1)" by simp
    have "chunk_loop words budget startIndex 0 [] = Some ([?w], startIndex + 1)"
      using assms idx big by (subst chunk_loop.simps) simp
    then have "getChunkText words startIndex budget = Some (join_space (take 1 ?rest))"
      using ne first by (simp add: getChunkText_def)
    moreover have "getNextChunkStart words budget startIndex = Some (startIndex + int 1)"
      using next_loop_stop[OF assms big] assms by (simp add: getNextChunkStart_def)
    ultimately show ?thesis using True assms by (intro exI[of _ 1]) simp
  next
    case False
    then have fits: "\<not> budget < 0 + (int (length ?w) + 1)" by simp
    from next_loop_props[OF assms(1), of words budget 0] obtain n' t' where
      nl: "next_loop words budget startIndex 0 = Some (n', t')" and b: "startIndex \<le> n'"
        "n' \<le> max startIndex (int (length words))" "startIndex < n' \<longrightarrow> t' \<le> budget"
        "n' < int (length words) \<longrightarrow> budget < t' + (int (length (words ! nat n')) + 1)"
      by blast
    have r: "next_loop words budget (startIndex + 1) (0 + (int (length ?w) + 1)) = Some (n', t')"
      using next_loop_step[OF assms fits] nl by simp
    from next_loop_props[of "startIndex + 1" words budget "0 + (int (length ?w) + 1)"] r assms(1)
    have lt: "startIndex < n'" by auto
    define k where "k = nat (n' - startIndex)"
    from lt b assms have k: "1 \<le> k" "n' = startIndex + int k"
      "startIndex + int k \<le> int (length words)"
      by (auto simp: k_def)
    have total_eq: "t' = chars_of (take k ?rest)"
      using next_loop_total[OF assms(1) nl] by (simp add: k_def)
    have "chunk_loop words budget startIndex 0 []
            = chunk_loop words budget (startIndex + 1) (0 + (int (length ?w) + 1)) ([] @ [?w])"
      using assms idx fits by (subst chunk_loop.simps) simp
    also have "\<dots> = Some (([] @ [?w])
                  @ take (nat (n' - (startIndex + 1))) (drop (nat (startIndex + 1)) words), n')"
      using chunk_loop_follows_next_loop[OF _ _ r, of "[] @ [?w]"] assms(1) by simp
    also have "\<dots> = Some (take k ?rest, n')"
      using drop_nat_step[OF assms lt] by (simp add: k_def)
    finally have chunk_eq:
      "getChunkText words startIndex budget = Some (join_space (take k ?rest))"
      using ne by (simp add: getChunkText_def)
    have next_eq: "getNextChunkStart words budget startIndex = Some (startIndex + int k)"
      using nl lt k by (simp add: getNextChunkStart_def)
    have maximal: "budget < chars_of (take (Suc k) ?rest)"
      if "startIndex + int k < int (length words)"
    proof -
      from that assms have "k < length ?rest" by auto
      then have "take (Suc k) ?rest = take k ?rest @ [?rest ! k]"
        by (rule take_Suc_conv_app_nth)
      moreover have "?rest ! k = words ! nat n'"
        using that assms k by (simp add: nat_add_distrib)
      ultimately show ?thesis using b(4) that k total_eq by simp
    qed
    show ?thesis using False k chunk_eq next_eq maximal b(3) lt total_eq
      by (intro exI[of _ k]) simp
  qed
  have "getChunkText five_words 0 10 = Some ''The quick''"
    by (simp add: five_words_def getChunkText_def chunk_loop.simps js_index_def)
  moreover have "getNextChunkStart five_words 10 0 = Some 2"
    by (simp add: five_words_def getNextChunkStart_def next_loop.simps js_index_def)
  ultimately show ?thesis using general by simp
qed

theorem chunk_accumulates_within_budget_witness:
  "(0::int) \<le> 2 \<and> 2 < int (length five_words)
   \<and> getChunkText five_words 2 10 = Some ''brown fox''
   \<and> getNextChunkStart five_words 10 2 = Some 4
   \<and> chars_of [''brown'', ''fox''] \<le> 10 \<and> 10 < chars_of [''brown'', ''fox'', ''jumps'']
   \<and> (0::int) \<le> 4 \<and> 4 < int (length five_words) \<and> 3 < chars_of [''jumps'']
   \<and> getChunkText five_words 4 3 = Some ''jumps'' \<and> getNextChunkStart five_words 3 4 = Some 5"
  using chunk_accumulates_within_budget[of 2 five_words 10]
    chunk_accumulates_within_budget[of 4 five_words 3]
  by (simp add: five_words_def getChunkText_def chunk_loop.simps js_index_def
      getNextChunkStart_def next_loop.simps)

text \<open>
  Claim C7: for every sequence of words, every start index and one budget for both
  steps, \<open>getPrevChunkStart\<close> at the index \<open>getNextChunkStart\<close> returns gives an
  index less than or equal to the start index. Both calls return (no read outside the
  array), for every budget and every start index that is not negative.
\<close>

theorem prev_after_next_not_forward:
  assumes "0 \<le> startIndex"
  shows "\<exists>n p. getNextChunkStart words budget startIndex = Some n
            \<and> getPrevChunkStart words budget n = Some p \<and> p \<le> startIndex"
proof -
  from next_loop_props[OF assms, of words budget 0] obtain n' T where
    nl: "next_loop words budget startIndex 0 = Some (n', T)"
    and b: "startIndex \<le> n'" "n' \<le> max startIndex (int (length words))"
      "n' = startIndex \<longrightarrow> T = 0" "startIndex < n' \<longrightarrow> T \<le> budget"
      "n' < int (length words) \<longrightarrow> budget < T + (int (length (words ! nat n')) + 1)"
    by blast
  show ?thesis
  proof (cases "n' = startIndex")
    case False
    with b have moved: "startIndex < n'" "T \<le> budget" "n' \<le> int (length words)" by auto
    have "prev_loop words budget n' 0 = prev_loop words budget startIndex T"
      using prev_loop_undoes_next_loop[OF assms nl, of 0] moved(2) by simp
    moreover from moved have "startIndex \<le> int (length words)" by simp
    from prev_loop_props[OF this, of budget T] obtain p' t' where
      "prev_loop words budget startIndex T = Some (p', t')" "p' \<le> startIndex" by blast
    ultimately show ?thesis using nl False moved(1)
      by (auto simp: getNextChunkStart_def getPrevChunkStart_def)
  next
    case True
    show ?thesis
    proof (cases "startIndex < int (length words)")
      case inside: True
      with \<open>n' = startIndex\<close> b
      have big: "budget < 0 + (int (length (words ! nat startIndex)) + 1)" by simp
      have n: "getNextChunkStart words budget startIndex = Some (startIndex + 1)"
        using nl True inside by (simp add: getNextChunkStart_def)
      have "prev_loop words budget (startIndex + 1) 0 = Some (startIndex + 1, 0)"
        using prev_loop_stop[of "startIndex + 1" words budget 0] assms inside big by simp
      then have "getPrevChunkStart words budget (startIndex + 1) = Some startIndex"
        using assms by (simp add: getPrevChunkStart_def)
      with n show ?thesis by simp
    next
      case False
      then have n: "getNextChunkStart words budget startIndex = Some (int (length words))"
        by (simp add: getNextChunkStart_beyond)
      from prev_loop_props[of "int (length words)" words budget 0] obtain p' t' where
        "prev_loop words budget (int (length words)) 0 = Some (p', t')"
        "p' \<le> int (length words)"
        by auto
      then have "\<exists>p. getPrevChunkStart words budget (int (length words)) = Some p
                    \<and> p \<le> int (length words)"
        by (auto simp: getPrevChunkStart_def)
      with n False show ?thesis by auto
    qed
  qed
qed

theorem prev_after_next_not_forward_witness:
  "(0::int) \<le> 2 \<and> getNextChunkStart five_words 10 2 = Some 4
   \<and> getPrevChunkStart five_words 10 4 = Some 2 \<and> (2::int) \<le> 2"
  using prev_after_next_not_forward[of 2 five_words 10]
  by (simp add: five_words_def getNextChunkStart_def next_loop.simps js_index_def
      getPrevChunkStart_def prev_loop.simps)

section \<open>The pacing clock\<close>

lemma Math_round_eq_round: "Math_round x = round x"
  by (simp add: Math_round_def round_def)

lemma msPerPair_eq: "msPerPair w = msPerChunk w"
  by (simp add: msPerPair_def msPerChunk_def)

lemma msPerChunk_range:
  assumes "60 \<le> w" "w \<le> 1200"
  shows "msPerChunk w = round (60000 / rat_of_int w) \<and> 1 \<le> round (60000 / rat_of_int w)"
proof -
  from assms have pos: "(0::rat) < of_int w" by simp
  from assms have "rat_of_int w \<le> 1200" by (metis of_int_le_iff of_int_numeral)
  then have "1 / 2 * rat_of_int w \<le> 60000" by simp
  then have "1 / 2 \<le> 60000 / rat_of_int w" using pos by (simp add: pos_le_divide_eq)
  then have "1 \<le> round (60000 / rat_of_int w)"
    by (simp add: round_def le_floor_iff)
  moreover have "max 1 w = w" using assms by simp
  ultimately show ?thesis by (simp add: msPerChunk_def Math_round_eq_round)
qed

text \<open>
  The two guards at work: a rate of 1 or less is taken as 1, and a rate so high that the
  quotient rounds to 0 still gives one millisecond.
\<close>

lemma msPerChunk_formula: "msPerChunk w = max 1 (round (60000 / rat_of_int (max 1 w)))"
  by (simp add: msPerChunk_def Math_round_eq_round)

lemma msPerChunk_ge_1: "1 \<le> msPerChunk w"
  by (simp add: msPerChunk_def)

lemma msPerChunk_inner_guard: "w \<le> 1 \<Longrightarrow> msPerChunk w = 60000"
proof -
  assume "w \<le> 1"
  then have "max 1 w = 1" by simp
  then show ?thesis by (simp add: msPerChunk_def Math_round_eq_round)
qed

lemma msPerChunk_outer_guard:
  assumes "120000 < w"
  shows "msPerChunk w = 1"
proof -
  from assms have pos: "(0::rat) < of_int w" by simp
  from assms have "(120000::rat) < of_int w" by (metis of_int_less_iff of_int_numeral)
  then have "60000 < 1 / 2 * rat_of_int w" by simp
  then have small: "60000 / rat_of_int w < 1 / 2" using pos by (simp add: pos_divide_less_eq)
  have nonneg: "0 \<le> 60000 / rat_of_int w" using pos by simp
  have "round (60000 / rat_of_int w) = 0"
    unfolding round_def using small nonneg by (simp add: floor_eq_iff)
  moreover have "max 1 w = w" using assms by simp
  ultimately show ?thesis by (simp add: msPerChunk_def Math_round_eq_round)
qed

text \<open>
  Claim C5: the linear timer and the pair timer both tick at an interval of
  \<open>max(1, round(60000 / max(1, wpm)))\<close> milliseconds, whatever the rate: this is the
  period of the interval the autoplay effect starts when playing over words that are not
  empty, and of the one \<open>startPairTimer\<close> starts; it is at least 1 for every rate.
  For every \<open>wpm\<close> from 60 to 1200 it is \<open>round(60000 / wpm)\<close>, and for 300 words
  per minute it is 200.
\<close>

theorem tick_interval:
  "msPerChunk w = max 1 (round (60000 / rat_of_int (max 1 w)))
   \<and> msPerPair w = max 1 (round (60000 / rat_of_int (max 1 w)))
   \<and> intervalRef (autoplay_effect (x # xs) w (r\<lparr>isPlaying := True\<rparr>)) = Some (msPerChunk w)
   \<and> pairTimerRef (startPairTimer (s\<lparr>wpm := w\<rparr>)) = Some (msPerPair w)
   \<and> 1 \<le> msPerChunk w \<and> 1 \<le> msPerPair w
   \<and> (w \<le> 1 \<longrightarrow> msPerChunk w = 60000 \<and> msPerPair w = 60000)
   \<and> (120000 < w \<longrightarrow> msPerChunk w = 1 \<and> msPerPair w = 1)
   \<and> (60 \<le> w \<and> w \<le> 1200 \<longrightarrow>
        msPerChunk w = round (60000 / rat_of_int w)
        \<and> msPerPair w = round (60000 / rat_of_int w))
   \<and> msPerChunk 300 = 200 \<and> msPerPair 300 = 200"
proof -
  have "msPerChunk 300 = round (60000 / rat_of_int 300)"
    using msPerChunk_range[of 300] by simp
  then have scenario: "msPerChunk 300 = 200" by simp
  have linear: "intervalRef (autoplay_effect (x # xs) w (r\<lparr>isPlaying := True\<rparr>))
                  = Some (msPerChunk w)"
    by (simp add: autoplay_effect_def stopInterval_def)
  have pair: "pairTimerRef (startPairTimer (s\<lparr>wpm := w\<rparr>)) = Some (msPerPair w)"
    by (simp add: startPairTimer_def stopPairTimer_def)
  have range: "60 \<le> w \<and> w \<le> 1200 \<longrightarrow> msPerChunk w = round (60000 / rat_of_int w)"
    using msPerChunk_range[of w] by blast
  show ?thesis
    using msPerChunk_formula[of w] msPerChunk_ge_1[of w] msPerChunk_inner_guard[of w]
      msPerChunk_outer_guard[of w] range scenario linear pair
    by (simp add: msPerPair_eq)
qed

theorem tick_interval_witness:
  "(0::int) \<le> 1 \<and> msPerChunk 0 = 60000 \<and> msPerPair 0 = 60000
   \<and> (120000::int) < 130000 \<and> msPerChunk 130000 = 1 \<and> msPerPair 130000 = 1
   \<and> (60::int) \<le> 70 \<and> (70::int) \<le> 1200 \<and> msPerChunk 70 = 857 \<and> msPerPair 70 = 857
   \<and> keydown [''The''] ArrowDown (initial_view\<lparr>wpm := 60\<rparr>) = Some (initial_view\<lparr>wpm := 50\<rparr>)
   \<and> msPerChunk 50 = 1200 \<and> msPerPair 50 = 1200
   \<and> msPerChunk 300 = 200 \<and> msPerPair 300 = 200
   \<and> intervalRef (autoplay_effect [''The''] 50 (initial_view\<lparr>isPlaying := True\<rparr>)) = Some 1200
   \<and> pairTimerRef (startPairTimer (initial_view\<lparr>wpm := 50\<rparr>)) = Some 1200"
proof -
  have r70: "round (60000 / rat_of_int 70) = 857"
    by (simp add: round_def floor_eq_iff)
  have k: "keydown [''The''] ArrowDown (initial_view\<lparr>wpm := 60\<rparr>) = Some (initial_view\<lparr>wpm := 50\<rparr>)"
    by (simp add: keydown_def onKey_def clampLocal_def initial_view_def)
  note at50 = tick_interval[where w = 50 and x = "''The''" and xs = "[]" and r = initial_view
        and s = initial_view]
  note at70 = tick_interval[where w = 70 and x = "''The''" and xs = "[]" and r = initial_view
        and s = initial_view]
  note at0 = tick_interval[where w = 0 and x = "''The''" and xs = "[]" and r = initial_view
        and s = initial_view]
  note big = tick_interval[where w = 130000 and x = "''The''" and xs = "[]" and r = initial_view
        and s = initial_view]
  have v50: "msPerChunk 50 = 1200 \<and> msPerPair 50 = 1200" using at50 by simp
  have v70: "msPerChunk 70 = 857 \<and> msPerPair 70 = 857" using at70 r70 by simp
  have v0: "msPerChunk 0 = 60000 \<and> msPerPair 0 = 60000" using at0 by simp
  have vbig: "msPerChunk 130000 = 1 \<and> msPerPair 130000 = 1" using big by simp
  have v300: "msPerChunk 300 = 200 \<and> msPerPair 300 = 200" using at50 by simp
  have timers: "intervalRef (autoplay_effect [''The''] 50 (initial_view\<lparr>isPlaying := True\<rparr>)) = Some 1200
     \<and> pairTimerRef (startPairTimer (initial_view\<lparr>wpm := 50\<rparr>)) = Some 1200"
    using at50 v50 by simp
  show ?thesis using v0 vbig v70 k v50 v300 timers by simp
qed

section \<open>The linear cursor\<close>

lemma tick_next_linear: "tick_next words c 1 p = getNextChunkStart words c p"
  by (simp add: tick_next_def getNextChunkStart_def)

lemma tick_next_progress:
  assumes "0 \<le> p" "p < int (length words)" "1 \<le> stepSize"
  shows "\<exists>n. tick_next words c stepSize p = Some n \<and> p < n"
proof (cases "stepSize = 1")
  case True
  then show ?thesis using getNextChunkStart_inside[OF assms(1,2), of c]
    by (auto simp: tick_next_linear)
next
  case False
  then show ?thesis using assms by (simp add: tick_next_def)
qed

text \<open>
  Claim C6: during linear playback, a tick whose computed next index is greater than or
  equal to the length stops the clock, pauses, and leaves the position where it is; the
  position never becomes greater than or equal to the length. From every position
  within the words the callback returns: it computes an index beyond the position; when
  that index reaches the length, the state is the old one with \<open>isPlaying\<close> false and
  no interval; otherwise only the position moves; in both cases the position stays
  within the words.
\<close>

theorem linear_tick_stops_at_end:
  assumes "0 \<le> position r" "position r < int (length words)" "1 \<le> stepSize"
  shows "\<exists>n r'. tick_next words budget stepSize (position r) = Some n \<and> position r < n
      \<and> tick words budget stepSize r = Some r'
      \<and> (int (length words) \<le> n \<longrightarrow> r' = r\<lparr>isPlaying := False, intervalRef := None\<rparr>)
      \<and> (n < int (length words) \<longrightarrow> r' = r\<lparr>position := n\<rparr>)
      \<and> 0 \<le> position r' \<and> position r' < int (length words)"
proof -
  from tick_next_progress[OF assms, of budget] obtain n where
    n: "tick_next words budget stepSize (position r) = Some n" "position r < n" by blast
  show ?thesis
  proof (cases "int (length words) \<le> n")
    case True
    with n assms show ?thesis by (simp add: tick_def stopInterval_def)
  next
    case False
    with n assms show ?thesis by (simp add: tick_def)
  qed
qed

theorem linear_tick_stops_at_end_witness:
  "(0::int) \<le> 3 \<and> 3 < int (length five_words) \<and> (1::int) \<le> 1
   \<and> tick_next five_words 10 1 3 = Some 5 \<and> int (length five_words) \<le> 5
   \<and> tick five_words 10 1 \<lparr>position = 3, isPlaying = True, intervalRef = Some 200\<rparr>
       = Some \<lparr>position = 3, isPlaying = False, intervalRef = None\<rparr>
   \<and> tick_next five_words 10 1 0 = Some 2 \<and> 2 < int (length five_words)
   \<and> tick five_words 10 1 \<lparr>position = 0, isPlaying = True, intervalRef = Some 200\<rparr>
       = Some \<lparr>position = 2, isPlaying = True, intervalRef = Some 200\<rparr>"
  using linear_tick_stops_at_end
      [of "\<lparr>position = 3, isPlaying = True, intervalRef = Some 200\<rparr>" five_words 1 10]
    linear_tick_stops_at_end
      [of "\<lparr>position = 0, isPlaying = True, intervalRef = Some 200\<rparr>" five_words 1 10]
  by (simp add: five_words_def tick_def tick_next_def next_loop.simps js_index_def
      stopInterval_def)

text \<open>
  Claim C9 states that \<open>togglePlay\<close> goes from paused to playing only over words that
  are not empty, from playing to paused always, and that over no words any play command
  changes nothing. ``Always'' fails over no words: a playing state stays playing. And
  the start button of the pair mode is a play command that does change the state over no
  words: it sets \<open>isPairPlaying\<close>.
\<close>

theorem togglePlay_empty_counterexample:
  "isPlaying \<lparr>position = 0, isPlaying = True, intervalRef = None\<rparr>
   \<and> isPlaying (togglePlay [] \<lparr>position = 0, isPlaying = True, intervalRef = None\<rparr>)
   \<and> handleStartPause [] (angle_mode_effect (toggleAngleMode initial_view))
       \<noteq> angle_mode_effect (toggleAngleMode initial_view)"
proof -
  have "isPairPlaying (handleStartPause [] (angle_mode_effect (toggleAngleMode initial_view)))"
    "\<not> isPairPlaying (angle_mode_effect (toggleAngleMode initial_view))"
    by (simp_all add: handleStartPause_def angle_mode_effect_def toggleAngleMode_def
        initial_view_def stopPairTimer_def)
  then have "handleStartPause [] (angle_mode_effect (toggleAngleMode initial_view))
       \<noteq> angle_mode_effect (toggleAngleMode initial_view)"
    by auto
  then show ?thesis by (simp add: togglePlay_def)
qed

text \<open>
  Claim C9, as the code has it: over words that are not empty \<open>togglePlay\<close> flips
  \<open>isPlaying\<close> and changes nothing else, in both directions; over no words it leaves
  the whole state as it is; so it goes from paused to playing only over words that are
  not empty. In the linear mode, start and pause are \<open>togglePlay\<close>.
\<close>

theorem togglePlay_gated:
  "(words \<noteq> [] \<longrightarrow> togglePlay words r = r\<lparr>isPlaying := \<not> isPlaying r\<rparr>)
   \<and> (words = [] \<longrightarrow> togglePlay words r = r)
   \<and> (\<not> isPlaying r \<and> isPlaying (togglePlay words r) \<longrightarrow> words \<noteq> [])
   \<and> (\<not> isAngleMode s \<longrightarrow> handleStartPause words s = togglePlay words s)"
  by (auto simp: togglePlay_def handleStartPause_def)

theorem togglePlay_gated_witness:
  "five_words \<noteq> []
   \<and> \<not> isPlaying \<lparr>position = 0, isPlaying = False, intervalRef = None\<rparr>
   \<and> isPlaying (togglePlay five_words \<lparr>position = 0, isPlaying = False, intervalRef = None\<rparr>)
   \<and> \<not> isPlaying (togglePlay five_words \<lparr>position = 0, isPlaying = True, intervalRef = None\<rparr>)
   \<and> togglePlay [] \<lparr>position = 0, isPlaying = False, intervalRef = None\<rparr>
       = \<lparr>position = 0, isPlaying = False, intervalRef = None\<rparr>
   \<and> \<not> isAngleMode initial_view
   \<and> handleStartPause [] initial_view = initial_view
   \<and> isPlaying (handleStartPause five_words initial_view)"
  using togglePlay_gated[of five_words "\<lparr>position = 0, isPlaying = False, intervalRef = None\<rparr>"
      initial_view]
    togglePlay_gated[of five_words "\<lparr>position = 0, isPlaying = True, intervalRef = None\<rparr>"
      initial_view]
    togglePlay_gated[of "[]" "\<lparr>position = 0, isPlaying = False, intervalRef = None\<rparr>"
      initial_view]
    togglePlay_gated[of "[]" initial_view initial_view]
    togglePlay_gated[of five_words initial_view initial_view]
  by (simp add: five_words_def initial_view_def)

section \<open>The pair cursor\<close>

lemma smod_two: "(p::int) smod 2 = (if even p then 0 else if 0 < p then 1 else - 1)"
  by (auto simp: signed_modulo_int_def sgn_if abs_if elim!: evenE oddE) presburger+

lemma leftIndex_even: "even (leftIndex p)"
  by (simp add: leftIndex_def smod_two max_def)

lemma leftIndex_even_index: "even p \<Longrightarrow> 0 \<le> p \<Longrightarrow> leftIndex p = p"
  by (simp add: leftIndex_def smod_two)

text \<open>
  Entering the mode, the timer and the backward step keep \<open>pairPos\<close> even, and so does
  the forward step over an even number of words.
\<close>

lemma angle_entry_even: "isAngleMode s \<Longrightarrow> even (pairPos (angle_mode_effect s))"
  using leftIndex_even[of "positionRef s"]
  by (simp add: angle_mode_effect_def Let_def stopPairTimer_def leftIndex_def)

lemma pair_tick_even: "even (pairPos s) \<Longrightarrow> even (pairPos (pair_tick words s))"
  by (simp add: pair_tick_def Let_def stopPairTimer_def)

lemma pair_backward_even:
  "isAngleMode s \<Longrightarrow> even (pairPos s) \<Longrightarrow> onKey words ArrowLeft s = Some s' \<Longrightarrow>
   even (pairPos s')"
  by (auto simp: onKey_def max_def)

lemma pair_forward_even:
  "isAngleMode s \<Longrightarrow> even (pairPos s) \<Longrightarrow> even (length words) \<Longrightarrow>
   onKey words ArrowRight s = Some s' \<Longrightarrow> even (pairPos s')"
  by (auto simp: onKey_def max_def min_def)

lemma pair_view_eq: "pair_view = initial_view\<lparr>isAngleMode := True, lastSyncedPosRef := 0\<rparr>"
  by (simp add: pair_view_def sync_effect_def angle_mode_effect_def toggleAngleMode_def
      initial_view_def stopPairTimer_def leftIndex_def jumpToPosition_def five_words_def)

text \<open>
  Claim C2: in the pair mode \<open>pairPos\<close> is even in every reachable state. The code
  does not keep it so over an odd number of words: the forward step clamps
  \<open>pairPos + 2\<close> to \<open>length - 2\<close>, which is odd. Over the five words, the pair mode
  entered at position 0, the right arrow leads from 0 to 2 and, after the effects of the
  view, from 2 to 3, an odd index; the timer leads from 2 to 4.
\<close>

theorem pair_forward_step_reaches_odd_index:
  "isAngleMode pair_view \<and> pairPos pair_view = 0
   \<and> keydown five_words ArrowRight pair_view = Some (pair_view\<lparr>pairPos := 2\<rparr>)
   \<and> training_effect (sync_effect five_words (pair_view\<lparr>pairPos := 2\<rparr>))
       = pair_view\<lparr>pairPos := 2, position := 2, lastSyncedPosRef := 2, prevPairPosRef := 2\<rparr>
   \<and> keydown five_words ArrowRight
        (pair_view\<lparr>pairPos := 2, position := 2, lastSyncedPosRef := 2, prevPairPosRef := 2\<rparr>)
       = Some (pair_view\<lparr>pairPos := 3, position := 2, lastSyncedPosRef := 2,
                         prevPairPosRef := 2\<rparr>)
   \<and> odd (pairPos (pair_view\<lparr>pairPos := 3, position := 2, lastSyncedPosRef := 2,
                               prevPairPosRef := 2\<rparr>))
   \<and> pair_tick five_words
        (pair_view\<lparr>pairPos := 2, position := 2, lastSyncedPosRef := 2, prevPairPosRef := 2\<rparr>)
       = pair_view\<lparr>pairPos := 4, position := 2, lastSyncedPosRef := 2, prevPairPosRef := 2\<rparr>"
  by (simp add: pair_view_eq initial_view_def keydown_def onKey_def five_words_def
      pair_tick_def training_effect_def sync_effect_def leftIndex_def jumpToPosition_def
      signed_modulo_int_def)

text \<open>
  Claim C8: in the pair mode, whenever \<open>pairPos\<close> changes, the position of the
  linear cursor is set to \<open>pairPos\<close>; the pair drives the linear position, never the
  reverse. The code does not do so at the odd index the forward step reaches over an odd
  number of words: with \<open>pairPos\<close> stepped from 2 to 3 over the five words, the
  synchronisation finds the index of the left word still at 2 and does nothing, and the
  position is 2, not 3. After the tick of the pair timer from 2 to 4 the position is 4.
\<close>

theorem sync_leaves_position_behind_odd_pair:
  "sync_effect five_words (pair_view\<lparr>pairPos := 2\<rparr>)
       = pair_view\<lparr>pairPos := 2, position := 2, lastSyncedPosRef := 2\<rparr>
   \<and> keydown five_words ArrowRight (pair_view\<lparr>pairPos := 2, position := 2, lastSyncedPosRef := 2\<rparr>)
       = Some (pair_view\<lparr>pairPos := 3, position := 2, lastSyncedPosRef := 2\<rparr>)
   \<and> isAngleMode (pair_view\<lparr>pairPos := 3, position := 2, lastSyncedPosRef := 2\<rparr>)
   \<and> sync_effect five_words (pair_view\<lparr>pairPos := 3, position := 2, lastSyncedPosRef := 2\<rparr>)
       = pair_view\<lparr>pairPos := 3, position := 2, lastSyncedPosRef := 2\<rparr>
   \<and> pairPos (pair_view\<lparr>pairPos := 3, position := 2, lastSyncedPosRef := 2\<rparr>) = 3
   \<and> position (pair_view\<lparr>pairPos := 3, position := 2, lastSyncedPosRef := 2\<rparr>) = 2
   \<and> sync_effect five_words
        (pair_tick five_words (pair_view\<lparr>pairPos := 2, position := 2, lastSyncedPosRef := 2\<rparr>))
       = pair_view\<lparr>pairPos := 4, position := 4, lastSyncedPosRef := 4\<rparr>"
  by (simp add: pair_view_eq initial_view_def keydown_def onKey_def five_words_def
      sync_effect_def leftIndex_def jumpToPosition_def signed_modulo_int_def pair_tick_def)

lemma linear_ops_keep_pairPos:
  "pairPos (togglePlay words s) = pairPos s"
  "pairPos (resetPosition s) = pairPos s"
  "pairPos (jumpToPosition words n s) = pairPos s"
  "pairPos (setIsPlaying b s) = pairPos s"
  "pairPos (handleSeek words per n s) = pairPos s"
  "pairPos (autoplay_effect words w s) = pairPos s"
  "pairPos (stopInterval s) = pairPos s"
  by (simp_all add: togglePlay_def resetPosition_def jumpToPosition_def setIsPlaying_def
      handleSeek_def autoplay_effect_def stopInterval_def)

lemma tick_keeps_pairPos: "tick words c k s = Some s' \<Longrightarrow> pairPos s' = pairPos s"
  by (auto simp: tick_def stopInterval_def split: option.splits if_splits)

lemma leftIndex_nonneg: "0 \<le> leftIndex p"
  by (simp add: leftIndex_def)

lemma sync_effect_keeps_pairPos: "pairPos (sync_effect words s) = pairPos s"
  by (simp add: sync_effect_def jumpToPosition_def)

text \<open>
  The synchronisation brings the position in step again after anything that left the
  mode, the index carried over last and the position as they were in step before.
\<close>

lemma sync_effect_restores:
  assumes "isAngleMode s'" and "lastSyncedPosRef s' = leftIndex q"
    and "position s' = max 0 (min (leftIndex q) (max 0 (int (length words) - 1)))"
  shows "pair_synced words (sync_effect words s')"
proof (cases "lastSyncedPosRef s' = leftIndex (pairPos s')")
  case True
  with assms show ?thesis by (simp add: pair_synced_def sync_effect_def)
next
  case False
  with assms(1) show ?thesis by (simp add: pair_synced_def sync_effect_def jumpToPosition_def)
qed

lemma angle_entry_synced:
  assumes "isAngleMode s"
  shows "pair_synced words (sync_effect words (angle_mode_effect s))"
proof -
  have fresh: "lastSyncedPosRef (angle_mode_effect s) = - 1"
    by (simp add: angle_mode_effect_def Let_def stopPairTimer_def)
  have "lastSyncedPosRef (angle_mode_effect s) \<noteq> leftIndex (pairPos (angle_mode_effect s))"
    using leftIndex_nonneg[of "pairPos (angle_mode_effect s)"] unfolding fresh by linarith
  moreover have "isAngleMode (angle_mode_effect s)"
    using assms by (simp add: angle_mode_effect_def Let_def stopPairTimer_def)
  ultimately show ?thesis by (simp add: pair_synced_def sync_effect_def jumpToPosition_def)
qed

text \<open>
  Apart from that index the synchronisation does carry \<open>pairPos\<close> over: once the
  position is in step, it is in step again after the tick of the pair timer, after the
  manual step forward or backward and after the entry into the mode, each followed by the
  synchronisation; in step, the position is \<open>pairPos\<close> whenever \<open>pairPos\<close> is an
  even index within the words. Neither the synchronisation nor the operations of the
  linear cursor change \<open>pairPos\<close>.
\<close>

lemma sync_keeps_position_in_step:
  assumes "pair_synced words s"
  shows "pair_synced words (sync_effect words (pair_tick words s))
       \<and> (\<exists>s'. keydown words ArrowRight s = Some s' \<and> pair_synced words (sync_effect words s'))
       \<and> (\<exists>s'. keydown words ArrowLeft s = Some s' \<and> pair_synced words (sync_effect words s'))
       \<and> (isAngleMode s0 \<longrightarrow> pair_synced words (sync_effect words (angle_mode_effect s0)))
       \<and> (even (pairPos s) \<and> 0 \<le> pairPos s \<and> pairPos s < int (length words) \<longrightarrow>
            position s = pairPos s)
       \<and> pairPos (sync_effect words s) = pairPos s
       \<and> pairPos (togglePlay words s) = pairPos s
       \<and> pairPos (resetPosition s) = pairPos s
       \<and> pairPos (jumpToPosition words n s) = pairPos s
       \<and> pairPos (handleSeek words per n s) = pairPos s
       \<and> pairPos (autoplay_effect words w s) = pairPos s
       \<and> (\<forall>s'. tick words budget k s = Some s' \<longrightarrow> pairPos s' = pairPos s)"
proof -
  from assms have m: "isAngleMode s" and l: "lastSyncedPosRef s = leftIndex (pairPos s)"
    and p: "position s = max 0 (min (leftIndex (pairPos s)) (max 0 (int (length words) - 1)))"
    by (simp_all add: pair_synced_def)
  have ticked: "pair_synced words (sync_effect words (pair_tick words s))"
    by (rule sync_effect_restores[where q = "pairPos s"])
      (simp_all add: pair_tick_def Let_def stopPairTimer_def m l p)
  have right: "\<exists>s'. keydown words ArrowRight s = Some s'
                  \<and> pair_synced words (sync_effect words s')"
  proof (cases "length words = 0")
    case True
    then have "keydown words ArrowRight s = Some s" by (simp add: keydown_def)
    moreover have "pair_synced words (sync_effect words s)"
      using m l p by (intro sync_effect_restores[where q = "pairPos s"])
    ultimately show ?thesis by blast
  next
    case False
    then have "keydown words ArrowRight s
        = Some (s\<lparr>isPairPlaying := False,
                  pairPos := min (pairPos s + 2) (max 0 (int (length words) - 2))\<rparr>)"
      using m by (simp add: keydown_def onKey_def)
    moreover have "pair_synced words (sync_effect words (s\<lparr>isPairPlaying := False,
                  pairPos := min (pairPos s + 2) (max 0 (int (length words) - 2))\<rparr>))"
      by (rule sync_effect_restores[where q = "pairPos s"]) (simp_all add: m l p)
    ultimately show ?thesis by blast
  qed
  have left: "\<exists>s'. keydown words ArrowLeft s = Some s'
                 \<and> pair_synced words (sync_effect words s')"
  proof (cases "length words = 0")
    case True
    then have "keydown words ArrowLeft s = Some s" by (simp add: keydown_def)
    moreover have "pair_synced words (sync_effect words s)"
      using m l p by (intro sync_effect_restores[where q = "pairPos s"])
    ultimately show ?thesis by blast
  next
    case False
    then have "keydown words ArrowLeft s
        = Some (s\<lparr>isPairPlaying := False, pairPos := max 0 (pairPos s - 2)\<rparr>)"
      using m by (simp add: keydown_def onKey_def)
    moreover have "pair_synced words (sync_effect words
        (s\<lparr>isPairPlaying := False, pairPos := max 0 (pairPos s - 2)\<rparr>))"
      by (rule sync_effect_restores[where q = "pairPos s"]) (simp_all add: m l p)
    ultimately show ?thesis by blast
  qed
  have entry: "isAngleMode s0 \<longrightarrow> pair_synced words (sync_effect words (angle_mode_effect s0))"
    using angle_entry_synced by blast
  have same: "even (pairPos s) \<and> 0 \<le> pairPos s \<and> pairPos s < int (length words) \<longrightarrow>
      position s = pairPos s"
    using p by (auto simp: leftIndex_even_index)
  have ticks: "\<forall>s'. tick words budget k s = Some s' \<longrightarrow> pairPos s' = pairPos s"
    using tick_keeps_pairPos by blast
  show ?thesis
    by (intro conjI ticked right left entry same ticks linear_ops_keep_pairPos
        sync_effect_keeps_pairPos)
qed

section \<open>The training\<close>

lemmas train_consts = TRAIN_MIN_def TRAIN_MAX_def TRAIN_STEP_def TRAIN_EVERY_PAIRS_def

lemma training_view_eq:
  "training_view = initial_view\<lparr>isAngleMode := True, pairGap := 10, isPairPlaying := True,
      isTraining := True, showGuide := True\<rparr>"
  by (simp add: training_view_def toggleTraining_def angle_mode_effect_def toggleAngleMode_def
      initial_view_def stopPairTimer_def leftIndex_def TRAIN_MIN_def)

text \<open>
  Claim C10: in every state in which the training is on, \<open>toggleTraining\<close> turns the
  training off, stops the pair playback and leaves the pair mode: \<open>isTraining\<close>,
  \<open>isPairPlaying\<close> and \<open>isAngleMode\<close> are false after it; the effect of the mode
  that follows keeps them false and clears the pair timer, and start and pause act on the
  linear cursor again.
\<close>

theorem toggleTraining_off_leaves_pair_mode:
  assumes "isTraining s"
  shows "\<not> isTraining (toggleTraining s) \<and> \<not> isPairPlaying (toggleTraining s)
       \<and> \<not> isAngleMode (toggleTraining s)
       \<and> \<not> isAngleMode (angle_mode_effect (toggleTraining s))
       \<and> \<not> isTraining (angle_mode_effect (toggleTraining s))
       \<and> \<not> isPairPlaying (angle_mode_effect (toggleTraining s))
       \<and> pairTimerRef (angle_mode_effect (toggleTraining s)) = None
       \<and> handleStartPause words (toggleTraining s) = togglePlay words (toggleTraining s)"
  using assms
  by (simp add: toggleTraining_def angle_mode_effect_def stopPairTimer_def handleStartPause_def)

theorem toggleTraining_off_leaves_pair_mode_witness:
  "isTraining training_view \<and> isAngleMode training_view \<and> isPairPlaying training_view
   \<and> \<not> isTraining (toggleTraining training_view) \<and> \<not> isAngleMode (toggleTraining training_view)
   \<and> \<not> isPairPlaying (toggleTraining training_view)
   \<and> pairTimerRef (angle_mode_effect (toggleTraining training_view)) = None"
proof -
  have on: "isTraining training_view \<and> isAngleMode training_view \<and> isPairPlaying training_view"
    by (simp add: training_view_eq initial_view_def)
  then show ?thesis using toggleTraining_off_leaves_pair_mode[of training_view] by simp
qed

lemma train_gap_fields:
  "pairPos (train_gap s) = pairPos s" "isAngleMode (train_gap s) = isAngleMode s"
  "isTraining (train_gap s) = isTraining s"
  "pairsSinceStepRef (train_gap s) = pairsSinceStepRef s"
  "prevPairPosRef (train_gap s) = prevPairPosRef s"
  by (simp_all add: train_gap_def Let_def)

lemma train_gap_value:
  "pairGap (train_gap s)
     = max TRAIN_MIN (min TRAIN_MAX (pairGap s + trainingDir s * TRAIN_STEP))"
  by (simp add: train_gap_def Let_def train_consts)

lemma train_gap_range:
  "TRAIN_MIN \<le> pairGap (train_gap s) \<and> pairGap (train_gap s) \<le> TRAIN_MAX"
  by (simp add: train_gap_value) (simp add: train_consts)

lemma train_gap_dir:
  "trainingDir (train_gap s) =
     (if pairGap s + trainingDir s * TRAIN_STEP \<ge> TRAIN_MAX then - 1
      else if pairGap s + trainingDir s * TRAIN_STEP \<le> TRAIN_MIN then 1 else trainingDir s)"
  by (simp add: train_gap_def Let_def)

lemma training_effect_step:
  assumes "isAngleMode s" "isTraining s"
  shows "training_effect s =
     (if pairPos s > prevPairPosRef s then
        (if pairsSinceStepRef s + 1 \<ge> TRAIN_EVERY_PAIRS
         then (train_gap (s\<lparr>pairsSinceStepRef := 0\<rparr>))\<lparr>prevPairPosRef := pairPos s\<rparr>
         else s\<lparr>pairsSinceStepRef := pairsSinceStepRef s + 1, prevPairPosRef := pairPos s\<rparr>)
      else s)"
  using assms by (simp add: training_effect_def Let_def)

text \<open>
  What the effect of the training leaves behind while the training is on: the modes and
  \<open>pairPos\<close> as they were, the greater of the pair recorded and \<open>pairPos\<close> as the
  pair recorded, and the counter, the gap and the direction as the source computes them.
\<close>

lemma training_effect_fields:
  assumes "isAngleMode s" "isTraining s"
  shows "isAngleMode (training_effect s)" "isTraining (training_effect s)"
    and "pairPos (training_effect s) = pairPos s"
    and "prevPairPosRef (training_effect s) = max (prevPairPosRef s) (pairPos s)"
    and "pairsSinceStepRef (training_effect s) =
          (if prevPairPosRef s < pairPos s
           then (if TRAIN_EVERY_PAIRS \<le> pairsSinceStepRef s + 1 then 0 else pairsSinceStepRef s + 1)
           else pairsSinceStepRef s)"
  using assms by (simp_all add: training_effect_step train_gap_fields)

lemma training_effect_gap:
  assumes "isAngleMode s" "isTraining s"
  shows "pairGap (training_effect s) =
          (if prevPairPosRef s < pairPos s \<and> TRAIN_EVERY_PAIRS \<le> pairsSinceStepRef s + 1
           then max TRAIN_MIN (min TRAIN_MAX (pairGap s + trainingDir s * TRAIN_STEP))
           else pairGap s)"
  using assms by (simp add: training_effect_step train_gap_value)

lemma training_effect_dir:
  assumes "isAngleMode s" "isTraining s"
  shows "trainingDir (training_effect s) =
          (if prevPairPosRef s < pairPos s \<and> TRAIN_EVERY_PAIRS \<le> pairsSinceStepRef s + 1
           then (if TRAIN_MAX \<le> pairGap s + trainingDir s * TRAIN_STEP then - 1
                 else if pairGap s + trainingDir s * TRAIN_STEP \<le> TRAIN_MIN then 1
                 else trainingDir s)
           else trainingDir s)"
  using assms by (simp add: training_effect_step train_gap_dir)

lemma training_run_fields:
  "isAngleMode s \<Longrightarrow> isTraining s \<Longrightarrow>
   isAngleMode (training_run ps s) \<and> isTraining (training_run ps s)
   \<and> prevPairPosRef (training_run ps s) = foldl max (prevPairPosRef s) ps"
proof (induction ps arbitrary: s)
  case Nil
  then show ?case by simp
next
  case (Cons p ps)
  let ?t = "training_effect (s\<lparr>pairPos := p\<rparr>)"
  from Cons.prems have m: "isAngleMode (s\<lparr>pairPos := p\<rparr>)" "isTraining (s\<lparr>pairPos := p\<rparr>)"
    by simp_all
  have "isAngleMode ?t" "isTraining ?t" "prevPairPosRef ?t = max (prevPairPosRef s) p"
    using training_effect_fields[OF m] by simp_all
  with Cons.IH[of ?t] show ?case by simp
qed

lemma training_run_gap_range:
  "isAngleMode s \<Longrightarrow> isTraining s \<Longrightarrow> TRAIN_MIN \<le> pairGap s \<Longrightarrow> pairGap s \<le> TRAIN_MAX \<Longrightarrow>
   TRAIN_MIN \<le> pairGap (training_run ps s) \<and> pairGap (training_run ps s) \<le> TRAIN_MAX"
proof (induction ps arbitrary: s)
  case Nil
  then show ?case by simp
next
  case (Cons p ps)
  let ?t = "training_effect (s\<lparr>pairPos := p\<rparr>)"
  from Cons.prems have m: "isAngleMode (s\<lparr>pairPos := p\<rparr>)" "isTraining (s\<lparr>pairPos := p\<rparr>)"
    by simp_all
  have "isAngleMode ?t" "isTraining ?t" using training_effect_fields[OF m] by simp_all
  moreover have "TRAIN_MIN \<le> pairGap ?t \<and> pairGap ?t \<le> TRAIN_MAX"
    using Cons.prems(3,4) by (simp add: training_effect_gap[OF m] train_consts)
  ultimately show ?case using Cons.IH[of ?t] by simp
qed

text \<open>
  A new pair is one beyond the last pair recorded: a step back, and the steps forward
  over pairs already recorded, leave counter, gap and direction as they are.
\<close>

lemma training_effect_ignores_recorded_pairs:
  "isAngleMode s \<Longrightarrow> isTraining s \<Longrightarrow> pairPos s \<le> prevPairPosRef s \<Longrightarrow> training_effect s = s"
  by (simp add: training_effect_def)

text \<open>
  Claim C4 states that while the training is on every forward movement of \<open>pairPos\<close>
  to a new pair adds one to a counter, that at 3 the counter goes back to 0 and the gap
  changes by \<open>direction * 10\<close>, that under these steps the gap never leaves 10 to 550,
  and that the direction flips exactly when a step reaches one of the two bounds. The
  code sets the direction at a bound, it does not flip it: the buttons of the gap work
  while the training runs, one press of the minus button takes the gap from 10 to 0, and
  the third pair then takes the gap to the bound 10 with the direction \<open>+1\<close> as it
  was before.
\<close>

theorem training_direction_set_counterexample:
  "isAngleMode (gap_minus training_view) \<and> isTraining (gap_minus training_view)
   \<and> pairGap (gap_minus training_view) = 0
   \<and> pairGap (training_run [2, 4] (gap_minus training_view)) = 0
   \<and> trainingDir (training_run [2, 4] (gap_minus training_view)) = 1
   \<and> pairGap (training_run [2, 4, 6] (gap_minus training_view)) = 10
   \<and> trainingDir (training_run [2, 4, 6] (gap_minus training_view)) = 1"
  by (simp add: training_view_eq initial_view_def gap_minus_def training_effect_def train_gap_def
      train_consts)

text \<open>
  Claim C4, as the code has it: while the training is on, every movement of \<open>pairPos\<close>
  beyond the last pair recorded adds one to the counter and records the pair; when the
  counter reaches 3 it goes back to 0 and the gap becomes the gap plus
  \<open>direction * 10\<close>, clamped to 10 and 550, so that the gap is within 10 and 550
  after every such step; a step that reaches 550 sets the direction to \<open>-1\<close>, one that
  reaches 10 sets it to \<open>+1\<close>, and nothing else changes the direction. When the gap
  is within 10 and 550 before and the direction is \<open>+1\<close> or \<open>-1\<close>, the gap stays
  within the bounds and the direction flips exactly when a step reaches a bound. Any run
  of the training keeps a gap within the bounds within them and records the greatest
  \<open>pairPos\<close>; starting the training sets gap 10, direction \<open>+1\<close> and counter 0.
\<close>

theorem training_step_counts_and_clamps:
  assumes "isAngleMode s" "isTraining s"
  shows "(let s' = training_effect (s\<lparr>pairPos := p\<rparr>);
              moved = (prevPairPosRef s < p);
              stepped = (moved \<and> 3 \<le> pairsSinceStepRef s + 1);
              next = pairGap s + trainingDir s * 10
          in pairsSinceStepRef s' =
               (if stepped then 0 else if moved then pairsSinceStepRef s + 1
                else pairsSinceStepRef s)
           \<and> prevPairPosRef s' = max (prevPairPosRef s) p
           \<and> pairGap s' = (if stepped then max 10 (min 550 next) else pairGap s)
           \<and> (stepped \<longrightarrow> 10 \<le> pairGap s' \<and> pairGap s' \<le> 550)
           \<and> trainingDir s' =
               (if stepped \<and> 550 \<le> next then - 1 else if stepped \<and> next \<le> 10 then 1
                else trainingDir s)
           \<and> (10 \<le> pairGap s \<and> pairGap s \<le> 550 \<and> (trainingDir s = 1 \<or> trainingDir s = - 1) \<longrightarrow>
                10 \<le> pairGap s' \<and> pairGap s' \<le> 550
                \<and> ((trainingDir s' \<noteq> trainingDir s) =
                     (stepped \<and> (pairGap s' = 10 \<or> pairGap s' = 550)))
                \<and> (trainingDir s' = trainingDir s \<or> trainingDir s' = - trainingDir s)))
       \<and> (10 \<le> pairGap s \<and> pairGap s \<le> 550 \<longrightarrow>
            10 \<le> pairGap (training_run ps s) \<and> pairGap (training_run ps s) \<le> 550)
       \<and> prevPairPosRef (training_run ps s) = foldl max (prevPairPosRef s) ps
       \<and> (\<not> isTraining s0 \<longrightarrow>
            isTraining (toggleTraining s0) \<and> isAngleMode (toggleTraining s0)
            \<and> pairGap (toggleTraining s0) = 10 \<and> trainingDir (toggleTraining s0) = 1
            \<and> pairsSinceStepRef (toggleTraining s0) = 0
            \<and> prevPairPosRef (toggleTraining s0) = leftIndex (pairPos s0))"
proof -
  let ?t = "s\<lparr>pairPos := p\<rparr>"
  let ?s' = "training_effect ?t"
  let ?next = "pairGap s + trainingDir s * 10"
  let ?stepped = "prevPairPosRef s < p \<and> 3 \<le> pairsSinceStepRef s + 1"
  from assms have m: "isAngleMode ?t" "isTraining ?t" by simp_all
  have counter: "pairsSinceStepRef ?s' =
      (if ?stepped then 0 else if prevPairPosRef s < p then pairsSinceStepRef s + 1
       else pairsSinceStepRef s)"
    using training_effect_fields(5)[OF m] by (simp add: train_consts)
  have marker: "prevPairPosRef ?s' = max (prevPairPosRef s) p"
    using training_effect_fields(4)[OF m] by simp
  have gap: "pairGap ?s' = (if ?stepped then max 10 (min 550 ?next) else pairGap s)"
    using training_effect_gap[OF m] by (simp add: train_consts)
  have dir: "trainingDir ?s' =
      (if ?stepped \<and> 550 \<le> ?next then - 1 else if ?stepped \<and> ?next \<le> 10 then 1
       else trainingDir s)"
    using training_effect_dir[OF m] by (simp add: train_consts)
  have after: "?stepped \<longrightarrow> 10 \<le> pairGap ?s' \<and> pairGap ?s' \<le> 550"
    by (simp add: gap)
  have inside: "10 \<le> pairGap s \<and> pairGap s \<le> 550 \<and> (trainingDir s = 1 \<or> trainingDir s = - 1) \<longrightarrow>
      10 \<le> pairGap ?s' \<and> pairGap ?s' \<le> 550
      \<and> ((trainingDir ?s' \<noteq> trainingDir s) = (?stepped \<and> (pairGap ?s' = 10 \<or> pairGap ?s' = 550)))
      \<and> (trainingDir ?s' = trainingDir s \<or> trainingDir ?s' = - trainingDir s)"
    unfolding gap dir by (cases "?stepped") auto
  have run: "10 \<le> pairGap s \<and> pairGap s \<le> 550 \<longrightarrow>
      10 \<le> pairGap (training_run ps s) \<and> pairGap (training_run ps s) \<le> 550"
    using training_run_gap_range[OF assms, of ps] by (simp add: train_consts)
  have mark: "prevPairPosRef (training_run ps s) = foldl max (prevPairPosRef s) ps"
    using training_run_fields[OF assms, of ps] by simp
  have start: "\<not> isTraining s0 \<longrightarrow>
            isTraining (toggleTraining s0) \<and> isAngleMode (toggleTraining s0)
            \<and> pairGap (toggleTraining s0) = 10 \<and> trainingDir (toggleTraining s0) = 1
            \<and> pairsSinceStepRef (toggleTraining s0) = 0
            \<and> prevPairPosRef (toggleTraining s0) = leftIndex (pairPos s0)"
    by (simp add: toggleTraining_def train_consts)
  show ?thesis
    unfolding Let_def
    by (intro conjI counter marker gap after dir inside run mark start)
qed


lemma training_two_pairs:
  "training_run [2, 4] training_view
     = training_view\<lparr>pairPos := 4, pairsSinceStepRef := 2, prevPairPosRef := 4\<rparr>"
  by (simp add: training_view_eq initial_view_def training_effect_def train_consts)

theorem training_step_counts_and_clamps_witness:
  "training_run [2, 4] training_view = training_view\<lparr>pairPos := 4, pairsSinceStepRef := 2, prevPairPosRef := 4\<rparr>
   \<and> isAngleMode (training_view\<lparr>pairPos := 4, pairsSinceStepRef := 2, prevPairPosRef := 4\<rparr>) \<and> isTraining (training_view\<lparr>pairPos := 4, pairsSinceStepRef := 2, prevPairPosRef := 4\<rparr>)
   \<and> pairGap (training_view\<lparr>pairPos := 4, pairsSinceStepRef := 2, prevPairPosRef := 4\<rparr>) = 10 \<and> trainingDir (training_view\<lparr>pairPos := 4, pairsSinceStepRef := 2, prevPairPosRef := 4\<rparr>) = 1
   \<and> pairGap (training_effect (training_view\<lparr>pairPos := 4, pairsSinceStepRef := 2, prevPairPosRef := 4\<rparr>\<lparr>pairPos := 6\<rparr>)) = 20
   \<and> trainingDir (training_effect (training_view\<lparr>pairPos := 4, pairsSinceStepRef := 2, prevPairPosRef := 4\<rparr>\<lparr>pairPos := 6\<rparr>)) = 1
   \<and> pairsSinceStepRef (training_effect (training_view\<lparr>pairPos := 4, pairsSinceStepRef := 2, prevPairPosRef := 4\<rparr>\<lparr>pairPos := 6\<rparr>)) = 0
   \<and> prevPairPosRef (training_effect (training_view\<lparr>pairPos := 4, pairsSinceStepRef := 2, prevPairPosRef := 4\<rparr>\<lparr>pairPos := 6\<rparr>)) = 6
   \<and> isAngleMode (training_view\<lparr>pairGap := 540, pairPos := 4, pairsSinceStepRef := 2, prevPairPosRef := 4\<rparr>) \<and> isTraining (training_view\<lparr>pairGap := 540, pairPos := 4, pairsSinceStepRef := 2, prevPairPosRef := 4\<rparr>)
   \<and> pairGap (training_view\<lparr>pairGap := 540, pairPos := 4, pairsSinceStepRef := 2, prevPairPosRef := 4\<rparr>) = 540 \<and> trainingDir (training_view\<lparr>pairGap := 540, pairPos := 4, pairsSinceStepRef := 2, prevPairPosRef := 4\<rparr>) = 1
   \<and> pairGap (training_effect (training_view\<lparr>pairGap := 540, pairPos := 4, pairsSinceStepRef := 2, prevPairPosRef := 4\<rparr>\<lparr>pairPos := 6\<rparr>)) = 550
   \<and> trainingDir (training_effect (training_view\<lparr>pairGap := 540, pairPos := 4, pairsSinceStepRef := 2, prevPairPosRef := 4\<rparr>\<lparr>pairPos := 6\<rparr>)) = - 1
   \<and> pairGap (training_run [2, 4, 6, 8, 10, 12] training_view) = 30
   \<and> prevPairPosRef (training_run [4, 2, 6] training_view) = 6
   \<and> \<not> isTraining (angle_mode_effect (toggleAngleMode initial_view))
   \<and> isTraining training_view \<and> isAngleMode training_view \<and> pairGap training_view = 10"
proof -
  let ?a = "training_view\<lparr>pairPos := 4, pairsSinceStepRef := 2, prevPairPosRef := 4\<rparr>"
  let ?b = "training_view\<lparr>pairGap := 540, pairPos := 4, pairsSinceStepRef := 2, prevPairPosRef := 4\<rparr>"
  have a: "isAngleMode ?a" "isTraining ?a" "pairGap ?a = 10" "trainingDir ?a = 1"
    "pairsSinceStepRef ?a = 2" "prevPairPosRef ?a = 4"
    by (simp_all add: training_view_eq initial_view_def)
  have b: "isAngleMode ?b" "isTraining ?b" "pairGap ?b = 540" "trainingDir ?b = 1"
    "pairsSinceStepRef ?b = 2" "prevPairPosRef ?b = 4"
    by (simp_all add: training_view_eq initial_view_def)
  have off: "\<not> isTraining (angle_mode_effect (toggleAngleMode initial_view))"
    by (simp add: angle_mode_effect_def toggleAngleMode_def initial_view_def stopPairTimer_def)
  have v: "isAngleMode training_view" "isTraining training_view"
    by (simp_all add: training_view_eq initial_view_def)
  note at_a = training_step_counts_and_clamps
      [OF a(1,2), where p = 6 and ps = "[]"
        and ?s0.0 = "angle_mode_effect (toggleAngleMode initial_view)", unfolded Let_def]
  note at_b = training_step_counts_and_clamps
      [OF b(1,2), where p = 6 and ps = "[]"
        and ?s0.0 = "angle_mode_effect (toggleAngleMode initial_view)", unfolded Let_def]
  note at_v = training_step_counts_and_clamps
      [OF v, where p = 0 and ps = "[4, 2, 6]"
        and ?s0.0 = "angle_mode_effect (toggleAngleMode initial_view)", unfolded Let_def]
  have stepped: "pairGap (training_effect (?a\<lparr>pairPos := 6\<rparr>)) = 20
      \<and> trainingDir (training_effect (?a\<lparr>pairPos := 6\<rparr>)) = 1
      \<and> pairsSinceStepRef (training_effect (?a\<lparr>pairPos := 6\<rparr>)) = 0
      \<and> prevPairPosRef (training_effect (?a\<lparr>pairPos := 6\<rparr>)) = 6"
    using at_a a by simp
  have flipped: "pairGap (training_effect (?b\<lparr>pairPos := 6\<rparr>)) = 550
      \<and> trainingDir (training_effect (?b\<lparr>pairPos := 6\<rparr>)) = - 1"
    using at_b b by simp
  have started: "pairGap training_view = 10"
    using at_v off unfolding training_view_def by blast
  have "prevPairPosRef (training_run [4, 2, 6] training_view)
          = foldl max (prevPairPosRef training_view) [4, 2, 6]"
    using at_v by blast
  then have marked: "prevPairPosRef (training_run [4, 2, 6] training_view) = 6"
    by (simp add: training_view_eq initial_view_def)
  have r: "pairGap (training_run [2, 4, 6, 8, 10, 12] training_view) = 30"
    by (simp add: training_view_eq initial_view_def training_effect_def train_gap_def
        train_consts)
  show ?thesis
    by (intro conjI training_two_pairs a(1-4) b(1-4) off v started marked r
        stepped[THEN conjunct1] stepped[THEN conjunct2, THEN conjunct1]
        stepped[THEN conjunct2, THEN conjunct2, THEN conjunct1]
        stepped[THEN conjunct2, THEN conjunct2, THEN conjunct2]
        flipped[THEN conjunct1] flipped[THEN conjunct2])
qed

end
